theory Spec2Isabelle
  imports Main "HOL-Library.AList"
begin

section \<open>Python strings, slices and dictionaries\<close>

text \<open>
  A Python \<open>str\<close> is modelled as a \<open>string\<close>: one \<open>char\<close> stands for one Python
  character (code point), so \<open>length\<close> is Python's \<open>len\<close>. The 256 values of \<open>char\<close>
  cover the Latin-1 range, which holds every character the code tests for
  (digits, \<open>-\<close>, space, \<open>(\<close>, \<open><\<close>, \<open>@\<close>, newline).
\<close>

text \<open>\<open>str.isspace\<close> on one character, for the code points below 256.\<close>

definition is_space :: "char \<Rightarrow> bool" where
  "is_space c = ((of_char c :: nat) \<in> {9, 10, 11, 12, 13, 28, 29, 30, 31, 32, 133, 160})"

text \<open>\<open>s.strip()\<close>: leading and trailing whitespace removed.\<close>

definition strip :: "string \<Rightarrow> string" where
  "strip s = rev (dropWhile is_space (rev (dropWhile is_space s)))"

text \<open>The class \<open>\d\<close> of the regular expressions, for the code points below 256.\<close>

definition is_digit :: "char \<Rightarrow> bool" where
  "is_digit c = (c \<in> set ''0123456789'')"

text \<open>
  \<open>re.search(r"^\d{4}-\d{2}-\d{2}", i)\<close>: \<open>None\<close> when the line does not start with a
  date, otherwise \<open>Some\<close> of \<open>match_result.group(0)\<close>, the ten matched characters.
\<close>

definition match_date :: "string \<Rightarrow> string option" where
  "match_date i =
     (let p = take 10 i in
      if length p = 10 \<and> list_all is_digit (take 4 p) \<and> p ! 4 = CHR ''-''
         \<and> list_all is_digit (take 2 (drop 5 p)) \<and> p ! 7 = CHR ''-''
         \<and> list_all is_digit (take 2 (drop 8 p))
      then Some p else None)"

text \<open>
  \<open>s.split(sep)\<close> for a one-character separator: every occurrence splits, empty
  pieces are kept, and the empty string gives one empty piece. The result is never
  empty, so the second arm of the \<open>case\<close> is never taken; it only keeps the
  function total.
\<close>

fun split_on :: "char \<Rightarrow> string \<Rightarrow> string list" where
  "split_on sep [] = [[]]"
| "split_on sep (c # cs) =
     (if c = sep then [] # split_on sep cs
      else (case split_on sep cs of
              w # ws \<Rightarrow> (c # w) # ws
            | [] \<Rightarrow> [[c]]))"

text \<open>\<open>sep.join(xs)\<close>.\<close>

fun join :: "string \<Rightarrow> string list \<Rightarrow> string" where
  "join sep [] = []"
| "join sep [x] = x"
| "join sep (x # y # ys) = x @ sep @ join sep (y # ys)"

text \<open>\<open>s.rfind(c)\<close> for one character: the highest index holding \<open>c\<close>, or \<open>-1\<close>.\<close>

definition rfind :: "char \<Rightarrow> string \<Rightarrow> int" where
  "rfind c s =
     (if c \<in> set s
      then int (length s) - 1 - int (length (takeWhile (\<lambda>x. x \<noteq> c) (rev s)))
      else - 1)"

text \<open>
  A slice bound of Python: a negative bound counts from the end, and the result is
  clamped to \<open>0 .. len\<close>.
\<close>

definition slice_index :: "int \<Rightarrow> nat \<Rightarrow> nat" where
  "slice_index i n = (if i < 0 then nat (int n + i) else min (nat i) n)"

text \<open>\<open>s[lo:hi]\<close>; slicing never raises.\<close>

definition py_slice :: "'a list \<Rightarrow> int \<Rightarrow> int \<Rightarrow> 'a list" where
  "py_slice s lo hi = drop (slice_index lo (length s)) (take (slice_index hi (length s)) s)"

text \<open>
  A \<open>dict\<close> is an association list in insertion order: \<open>map_of d k\<close> is the lookup
  (\<open>None\<close> for \<open>k not in d\<close>) and \<open>AList.update k v d\<close> is \<open>d[k] = v\<close>, which
  overwrites in place or appends a new key at the end.
\<close>

type_synonym 'v dict = "(string \<times> 'v) list"

text \<open>The pattern \<open>if k in d: d[k] += 1 else: d[k] = 1\<close> of the source.\<close>

definition increment :: "string \<Rightarrow> int dict \<Rightarrow> int dict" where
  "increment k d =
     (case map_of d k of
        Some n \<Rightarrow> AList.update k (n + 1) d
      | None \<Rightarrow> AList.update k 1 d)"

text \<open>\<open>d.get(k, 0)\<close>: the count of a key, zero when absent.\<close>

definition count_of :: "int dict \<Rightarrow> string \<Rightarrow> int" where
  "count_of d k = (case map_of d k of Some n \<Rightarrow> n | None \<Rightarrow> 0)"

text \<open>\<open>sum(d.values())\<close>.\<close>

definition sum_values :: "int dict \<Rightarrow> int" where
  "sum_values d = sum_list (map snd d)"

definition keys :: "'v dict \<Rightarrow> string set" where
  "keys d = fst ` set d"


section \<open>The header line\<close>

text \<open>Line 53: \<open>" ".join(prev_info_line.split(" ")[2:])\<close>.\<close>

definition name_qq_of :: "string \<Rightarrow> string" where
  "name_qq_of info_line = join '' '' (drop 2 (split_on CHR '' '' info_line))"

text \<open>Lines 54 to 56.\<close>

definition left_parenthesis_index :: "string \<Rightarrow> int" where
  "left_parenthesis_index name_qq =
     (if rfind CHR ''('' name_qq = - 1 then rfind CHR ''<'' name_qq
      else rfind CHR ''('' name_qq)"

text \<open>Lines 58 and 59: the pair \<open>(name, qq)\<close>.\<close>

definition name_of :: "string \<Rightarrow> string" where
  "name_of name_qq = py_slice name_qq 0 (left_parenthesis_index name_qq)"

definition qq_of :: "string \<Rightarrow> string" where
  "qq_of name_qq = py_slice name_qq (left_parenthesis_index name_qq + 1) (- 1)"


section \<open>get_statistics\<close>

type_synonym msg_filter_t = "string \<Rightarrow> string \<Rightarrow> string \<Rightarrow> string \<Rightarrow> bool"
type_synonym speak_filter_t = "string \<Rightarrow> string \<Rightarrow> bool"

text \<open>
  The variables of \<open>get_statistics\<close>: the five accumulators and the three variables
  that remember the previous line.
\<close>

record state =
  words :: "string list"
  total_counts :: "int dict"
  annoy_counts :: "int dict"
  speak_counts :: "int dict"
  card_names :: "string dict"
  prev_is_info_line :: bool
  prev_info_line :: string
  prev_date :: string

text \<open>Lines 33 to 42.\<close>

definition init_state :: state where
  "init_state = \<lparr> words = [], total_counts = [], annoy_counts = [], speak_counts = [],
     card_names = [], prev_is_info_line = False, prev_info_line = [], prev_date = [] \<rparr>"

text \<open>
  An optional callback is an \<open>option\<close>; a callback itself is a function of HOL, so it
  returns on every input and has no state of its own. \<open>lcut\<close> stands for
  \<open>jieba.lcut\<close>, which is not part of this repository.
\<close>

definition passes4 :: "msg_filter_t option \<Rightarrow> string \<Rightarrow> string \<Rightarrow> string \<Rightarrow> string \<Rightarrow> bool" where
  "passes4 msg_filter d n q m = (case msg_filter of None \<Rightarrow> True | Some f \<Rightarrow> f d n q m)"

definition passes2 :: "speak_filter_t option \<Rightarrow> string \<Rightarrow> string \<Rightarrow> bool" where
  "passes2 speak_filter n q = (case speak_filter of None \<Rightarrow> True | Some f \<Rightarrow> f n q)"

definition passes1 :: "(string \<Rightarrow> bool) option \<Rightarrow> string \<Rightarrow> bool" where
  "passes1 word_filter w = (case word_filter of None \<Rightarrow> True | Some f \<Rightarrow> f w)"

definition preprocess :: "(string \<Rightarrow> string) option \<Rightarrow> string \<Rightarrow> string" where
  "preprocess msg_preprocessor i = (case msg_preprocessor of None \<Rightarrow> i | Some g \<Rightarrow> g i)"

text \<open>Lines 61 to 85: what an accepted message adds to the accumulators.\<close>

definition account :: "(string \<Rightarrow> string list) \<Rightarrow> (string \<Rightarrow> string) option \<Rightarrow>
    (string \<Rightarrow> bool) option \<Rightarrow> speak_filter_t option \<Rightarrow>
    string \<Rightarrow> string \<Rightarrow> string \<Rightarrow> state \<Rightarrow> state" where
  "account lcut msg_preprocessor word_filter speak_filter name qq i st =
     (let st1 = st\<lparr> total_counts := increment (prev_date st) (total_counts st) \<rparr>;
          st2 = (if qq = ''80000000''
                 then st1\<lparr> annoy_counts := increment (prev_date st) (annoy_counts st1) \<rparr>
                 else st1);
          st3 = (if passes2 speak_filter name qq
                 then st2\<lparr> speak_counts := increment qq (speak_counts st2),
                           card_names := AList.update qq name (card_names st2) \<rparr>
                 else st2)
      in st3\<lparr> words := words st3 @
                 filter (passes1 word_filter) (lcut (preprocess msg_preprocessor i)) \<rparr>)"

text \<open>Lines 44 to 87: the body of the loop, on one line of the file.\<close>

definition loop_body :: "(string \<Rightarrow> string list) \<Rightarrow> msg_filter_t option \<Rightarrow>
    (string \<Rightarrow> string) option \<Rightarrow> (string \<Rightarrow> bool) option \<Rightarrow> speak_filter_t option \<Rightarrow>
    state \<Rightarrow> string \<Rightarrow> state" where
  "loop_body lcut msg_filter msg_preprocessor word_filter speak_filter st line =
     (let i = strip line in
      case match_date i of
        Some d \<Rightarrow> st\<lparr> prev_is_info_line := True, prev_info_line := i, prev_date := d \<rparr>
      | None \<Rightarrow>
          if prev_is_info_line st then
            (let st0 = st\<lparr> prev_is_info_line := False \<rparr>;
                 name_qq = name_qq_of (prev_info_line st);
                 name = name_of name_qq;
                 qq = qq_of name_qq
             in if passes4 msg_filter (prev_date st) name qq i
                then account lcut msg_preprocessor word_filter speak_filter name qq i st0
                else st0)
          else st\<lparr> prev_is_info_line := False \<rparr>)"

text \<open>The \<open>for\<close> loop over the lines of the file.\<close>

definition run_loop :: "(string \<Rightarrow> string list) \<Rightarrow> msg_filter_t option \<Rightarrow>
    (string \<Rightarrow> string) option \<Rightarrow> (string \<Rightarrow> bool) option \<Rightarrow> speak_filter_t option \<Rightarrow>
    state \<Rightarrow> string list \<Rightarrow> state" where
  "run_loop lcut msg_filter msg_preprocessor word_filter speak_filter st lines =
     foldl (loop_body lcut msg_filter msg_preprocessor word_filter speak_filter) st lines"

text \<open>
  The file system: a path that \<open>open\<close> can read maps to the lines the file iterator
  yields; any other path makes \<open>open\<close> raise.
\<close>

datatype error = OSError

type_synonym files = "string \<Rightarrow> string list option"

type_synonym outputs = "string list \<times> int dict \<times> int dict \<times> int dict \<times> string dict"

definition get_statistics :: "files \<Rightarrow> (string \<Rightarrow> string list) \<Rightarrow> string \<Rightarrow>
    msg_filter_t option \<Rightarrow> (string \<Rightarrow> string) option \<Rightarrow> (string \<Rightarrow> bool) option \<Rightarrow>
    speak_filter_t option \<Rightarrow> error + outputs" where
  "get_statistics fs lcut msgs_path msg_filter msg_preprocessor word_filter speak_filter =
     (case fs msgs_path of
        None \<Rightarrow> Inl OSError
      | Some lines \<Rightarrow>
          (let st = run_loop lcut msg_filter msg_preprocessor word_filter speak_filter
                      init_state lines
           in Inr (words st, total_counts st, annoy_counts st, speak_counts st,
                   card_names st)))"


text \<open>
  The same function as a step on the variables of its body, for what one call could
  leave to the next. A call starts with its variables unbound; here they start with
  arbitrary values, for instance those an earlier call ended with. Lines 33 to 37
  assign the accumulators, \<open>open\<close> follows, lines 40 to 42 assign the three
  \<open>prev\<close> variables, and the loop runs. The function assigns no name of the module.
  The result is the returned value (or the error) and the variables at the end.
\<close>

definition assign_accumulators :: "state \<Rightarrow> state" where
  "assign_accumulators st = st\<lparr> words := [], total_counts := [], annoy_counts := [],
     speak_counts := [], card_names := [] \<rparr>"

definition assign_prev :: "state \<Rightarrow> state" where
  "assign_prev st = st\<lparr> prev_is_info_line := False, prev_info_line := [], prev_date := [] \<rparr>"

definition get_statistics_call :: "state \<Rightarrow> files \<Rightarrow> (string \<Rightarrow> string list) \<Rightarrow> string \<Rightarrow>
    msg_filter_t option \<Rightarrow> (string \<Rightarrow> string) option \<Rightarrow> (string \<Rightarrow> bool) option \<Rightarrow>
    speak_filter_t option \<Rightarrow> (error + outputs) \<times> state" where
  "get_statistics_call st fs lcut msgs_path msg_filter msg_preprocessor word_filter speak_filter =
     (let st1 = assign_accumulators st in
      case fs msgs_path of
        None \<Rightarrow> (Inl OSError, st1)
      | Some lines \<Rightarrow>
          (let st2 = run_loop lcut msg_filter msg_preprocessor word_filter speak_filter
                       (assign_prev st1) lines
           in (Inr (words st2, total_counts st2, annoy_counts st2, speak_counts st2,
                    card_names st2), st2)))"


section \<open>The filters of the script\<close>

text \<open>Lines 164 to 167: the stop words, one per line of the file, stripped.\<close>

definition load_stop_words :: "string list \<Rightarrow> string set" where
  "load_stop_words lines = set (map strip lines)"

definition qq_word_filter :: "string set \<Rightarrow> string \<Rightarrow> bool" where
  "qq_word_filter stop_words word = (length word > 1 \<and> word \<notin> stop_words)"

definition no_annoy_sys_speak_filter :: "string \<Rightarrow> string \<Rightarrow> bool" where
  "no_annoy_sys_speak_filter name qq = (qq \<noteq> ''80000000'' \<and> qq \<noteq> ''1000000'')"

text \<open>
  The pattern \<open>.+ \<close> at the text after an \<open>@\<close>: the dot matches every character but
  the newline, and the greedy \<open>+\<close> gives the characters back one at a time until a
  space follows, so the match ends at the last space of the line that has at least
  one character before it. The result is the length of the match.
\<close>

definition match_dots_space :: "string \<Rightarrow> nat option" where
  "match_dots_space cs =
     (let seg = takeWhile (\<lambda>c. c \<noteq> CHR 0x0A) cs; j = rfind CHR '' '' seg
      in if 1 \<le> j then Some (nat j + 1) else None)"

text \<open>
  \<open>re.sub("@.+ ", "", msg)\<close>: the matches are found from left to right, each is
  removed, and the search goes on behind it.
\<close>

fun re_sub_mention :: "string \<Rightarrow> string" where
  "re_sub_mention [] = []"
| "re_sub_mention (c # cs) =
     (if c = CHR ''@'' then
        (case match_dots_space cs of
           Some n \<Rightarrow> re_sub_mention (drop n cs)
         | None \<Rightarrow> c # re_sub_mention cs)
      else c # re_sub_mention cs)"

definition qq_msg_preprocessor :: "string \<Rightarrow> string" where
  "qq_msg_preprocessor msg = re_sub_mention msg"


section \<open>Notions used to state the properties\<close>

text \<open>
  Modelled from the spec's words (sections 3 and 4.1), for comparison with the loop:
  a record is a header line immediately followed by a line that is not a header; it
  holds the date, the sender name, the sender id and the message. A header followed
  by another header gives no record, and every other line is ignored. The lines are
  the stripped lines of the file.
\<close>

fun spec_records :: "string list \<Rightarrow> (string \<times> string \<times> string \<times> string) list" where
  "spec_records (h # b # rest) =
     (case match_date h of
        None \<Rightarrow> spec_records (b # rest)
      | Some d \<Rightarrow>
          (case match_date b of
             Some _ \<Rightarrow> spec_records (b # rest)
           | None \<Rightarrow> (d, name_of (name_qq_of h), qq_of (name_qq_of h), b) # spec_records rest))"
| "spec_records _ = []"

definition accepts :: "msg_filter_t option \<Rightarrow> string \<times> string \<times> string \<times> string \<Rightarrow> bool" where
  "accepts msg_filter r = (case r of (d, n, q, m) \<Rightarrow> passes4 msg_filter d n q m)"

text \<open>The records of a file that \<open>msg_filter\<close> accepts.\<close>

definition accepted_records :: "msg_filter_t option \<Rightarrow> string list \<Rightarrow>
    (string \<times> string \<times> string \<times> string) list" where
  "accepted_records msg_filter lines = filter (accepts msg_filter) (spec_records (map strip lines))"

text \<open>The header line that still waits for its body, if there is one.\<close>

definition pending :: "state \<Rightarrow> string list" where
  "pending st = (if prev_is_info_line st then [prev_info_line st] else [])"

definition header_ok :: "state \<Rightarrow> bool" where
  "header_ok st =
     (prev_is_info_line st \<longrightarrow> match_date (prev_info_line st) = Some (prev_date st))"

definition positive :: "int dict \<Rightarrow> bool" where
  "positive d = (\<forall>(k, v) \<in> set d. 1 \<le> v)"

text \<open>
  A small transcript, as the file iterator yields it (every line ends with a
  newline), a file system that holds it, and a tokenizer that splits at spaces.
\<close>

definition example_lines :: "string list" where
  "example_lines = map (\<lambda>l. l @ [CHR 0x0A])
     [''2023-09-15 10:00:00 Alice(111)'', ''hello world'',
      ''2023-09-15 10:01:00 Anon(80000000)'', ''a secret'',
      ''not a header'',
      ''2023-09-16 09:00:00 Carol(333)'',
      ''2023-09-16 09:00:05 Bob<222>'', ''bye'']"

definition example_files :: files where
  "example_files = (\<lambda>p. if p = ''chat.txt'' then Some example_lines else None)"

definition example_lcut :: "string \<Rightarrow> string list" where
  "example_lcut = split_on CHR '' ''"

text \<open>The state of the loop after the header line of an anonymous message.\<close>

definition example_pending :: state where
  "example_pending =
     loop_body example_lcut None None None None init_state
       ''2023-09-15 10:01:00 Anon(80000000)''"

text \<open>
  Modelled from the spec's words (section 4.2, \<open>preprocessor\<close>): a mention is an
  \<open>@\<close> followed by at least one non-space character up to the next space; every
  mention is removed together with that space, and the rest of the text is kept.
\<close>

fun spec_strip_mentions :: "string \<Rightarrow> string" where
  "spec_strip_mentions [] = []"
| "spec_strip_mentions (c # cs) =
     (let w = takeWhile (\<lambda>x. x \<noteq> CHR '' '') cs in
      if c = CHR ''@'' \<and> w \<noteq> [] \<and> length w < length cs
      then spec_strip_mentions (drop (Suc (length w)) cs)
      else c # spec_strip_mentions cs)"


section \<open>Dictionaries\<close>

lemma sum_list_update:
  "sum_list (map snd (AList.update k v d)) =
     sum_list (map snd d) - (case map_of d k of Some n \<Rightarrow> n | None \<Rightarrow> 0) + (v::int)"
  by (induction d) auto

lemma sum_values_increment: "sum_values (increment k d) = sum_values d + 1"
  by (simp add: sum_values_def increment_def sum_list_update split: option.split)

lemma keys_increment: "keys (increment k d) = insert k (keys d)"
  by (simp add: keys_def increment_def dom_update split: option.split)

lemma keys_update: "keys (AList.update k v d) = insert k (keys d)"
  by (simp add: keys_def dom_update)

lemma map_of_increment:
  "map_of (increment k d) = (map_of d)(k \<mapsto> count_of d k + 1)"
  by (simp add: increment_def count_of_def update_conv' split: option.split)

lemma count_of_increment:
  "count_of (increment k d) k' = (if k' = k then count_of d k + 1 else count_of d k')"
  by (simp add: count_of_def map_of_increment)

lemma set_update_subset: "set (AList.update k v d) \<subseteq> insert (k, v) (set d)"
  by (induction d) auto

lemma positive_increment: "positive d \<Longrightarrow> positive (increment k d)"
proof -
  assume p: "positive d"
  show ?thesis
  proof (cases "map_of d k")
    case None
    then have "set (increment k d) \<subseteq> insert (k, 1) (set d)"
      by (simp add: increment_def set_update_subset)
    with p show ?thesis by (auto simp: positive_def)
  next
    case (Some n)
    then have "(k, n) \<in> set d" by (rule map_of_SomeD)
    with p have "1 \<le> n" by (auto simp: positive_def)
    moreover from Some have "set (increment k d) \<subseteq> insert (k, n + 1) (set d)"
      by (simp add: increment_def set_update_subset)
    ultimately show ?thesis using p by (auto simp: positive_def)
  qed
qed


section \<open>The loop\<close>

lemma spec_records_skip: "match_date i = None \<Longrightarrow> spec_records (i # rest) = spec_records rest"
  by (cases rest) simp_all

lemma account_total:
  "total_counts (account lcut mp wd sf name qq i st) = increment (prev_date st) (total_counts st)"
  by (simp add: account_def Let_def)

lemma account_annoy:
  "annoy_counts (account lcut mp wd sf name qq i st) =
     (if qq = ''80000000'' then increment (prev_date st) (annoy_counts st) else annoy_counts st)"
  by (simp add: account_def Let_def)

lemma account_speak:
  "speak_counts (account lcut mp wd sf name qq i st) =
     (if passes2 sf name qq then increment qq (speak_counts st) else speak_counts st)"
  by (simp add: account_def Let_def)

lemma account_card:
  "card_names (account lcut mp wd sf name qq i st) =
     (if passes2 sf name qq then AList.update qq name (card_names st) else card_names st)"
  by (simp add: account_def Let_def)

lemma account_prev:
  "prev_is_info_line (account lcut mp wd sf name qq i st) = prev_is_info_line st"
  "prev_info_line (account lcut mp wd sf name qq i st) = prev_info_line st"
  "prev_date (account lcut mp wd sf name qq i st) = prev_date st"
  by (simp_all add: account_def Let_def)

lemma loop_body_header:
  "match_date (strip line) = Some d \<Longrightarrow>
   loop_body lcut mf mp wd sf st line =
     st\<lparr> prev_is_info_line := True, prev_info_line := strip line, prev_date := d \<rparr>"
  by (simp add: loop_body_def Let_def)

lemma loop_body_idle:
  "match_date (strip line) = None \<Longrightarrow> \<not> prev_is_info_line st \<Longrightarrow>
   loop_body lcut mf mp wd sf st line = st\<lparr> prev_is_info_line := False \<rparr>"
  by (simp add: loop_body_def Let_def)

lemma loop_body_rejected:
  "match_date (strip line) = None \<Longrightarrow> prev_is_info_line st \<Longrightarrow>
   \<not> passes4 mf (prev_date st) (name_of (name_qq_of (prev_info_line st)))
        (qq_of (name_qq_of (prev_info_line st))) (strip line) \<Longrightarrow>
   loop_body lcut mf mp wd sf st line = st\<lparr> prev_is_info_line := False \<rparr>"
  by (simp add: loop_body_def Let_def)

lemma loop_body_accepted:
  "match_date (strip line) = None \<Longrightarrow> prev_is_info_line st \<Longrightarrow>
   passes4 mf (prev_date st) (name_of (name_qq_of (prev_info_line st)))
        (qq_of (name_qq_of (prev_info_line st))) (strip line) \<Longrightarrow>
   loop_body lcut mf mp wd sf st line =
     account lcut mp wd sf (name_of (name_qq_of (prev_info_line st)))
       (qq_of (name_qq_of (prev_info_line st))) (strip line)
       (st\<lparr> prev_is_info_line := False \<rparr>)"
  by (simp add: loop_body_def Let_def)

lemma run_loop_Nil: "run_loop lcut mf mp wd sf st [] = st"
  by (simp add: run_loop_def)

lemma run_loop_Cons:
  "run_loop lcut mf mp wd sf st (l # ls) =
     run_loop lcut mf mp wd sf (loop_body lcut mf mp wd sf st l) ls"
  by (simp add: run_loop_def)

text \<open>A property kept by every pass of the loop holds when the loop ends.\<close>

lemma run_loop_invariant:
  assumes "P st" and "\<And>s l. P s \<Longrightarrow> P (loop_body lcut mf mp wd sf s l)"
  shows "P (run_loop lcut mf mp wd sf st lines)"
  using assms(1)
proof (induction lines arbitrary: st)
  case Nil
  then show ?case by (simp add: run_loop_Nil)
next
  case (Cons l ls)
  then show ?case by (simp add: run_loop_Cons assms(2))
qed

lemma loop_body_cases:
  obtains (header) d where "match_date (strip line) = Some d"
      "loop_body lcut mf mp wd sf st line =
         st\<lparr> prev_is_info_line := True, prev_info_line := strip line, prev_date := d \<rparr>"
  | (skip) "match_date (strip line) = None"
      "loop_body lcut mf mp wd sf st line = st\<lparr> prev_is_info_line := False \<rparr>"
      "\<not> prev_is_info_line st \<or>
        \<not> passes4 mf (prev_date st) (name_of (name_qq_of (prev_info_line st)))
           (qq_of (name_qq_of (prev_info_line st))) (strip line)"
  | (accept) "match_date (strip line) = None" "prev_is_info_line st"
      "passes4 mf (prev_date st) (name_of (name_qq_of (prev_info_line st)))
           (qq_of (name_qq_of (prev_info_line st))) (strip line)"
      "loop_body lcut mf mp wd sf st line =
         account lcut mp wd sf (name_of (name_qq_of (prev_info_line st)))
           (qq_of (name_qq_of (prev_info_line st))) (strip line)
           (st\<lparr> prev_is_info_line := False \<rparr>)"
proof (cases "match_date (strip line)")
  case (Some d)
  then show ?thesis using header loop_body_header by blast
next
  case None
  show ?thesis
  proof (cases "prev_is_info_line st \<and>
        passes4 mf (prev_date st) (name_of (name_qq_of (prev_info_line st)))
           (qq_of (name_qq_of (prev_info_line st))) (strip line)")
    case True
    then show ?thesis using None accept loop_body_accepted by blast
  next
    case False
    then show ?thesis using None skip loop_body_idle loop_body_rejected by blast
  qed
qed

lemma loop_body_same_keys:
  assumes "keys (speak_counts st) = keys (card_names st)"
  shows "keys (speak_counts (loop_body lcut mf mp wd sf st line)) =
         keys (card_names (loop_body lcut mf mp wd sf st line))"
proof (cases rule: loop_body_cases [of line lcut mf mp wd sf st])
  case (header d)
  then show ?thesis using assms by simp
next
  case skip
  then show ?thesis using assms by simp
next
  case accept
  then show ?thesis using assms
    by (simp add: account_speak account_card keys_increment keys_update)
qed

lemma loop_body_day_counts:
  assumes "keys (annoy_counts st) \<subseteq> keys (total_counts st) \<and>
           positive (total_counts st) \<and> positive (annoy_counts st)"
  shows "keys (annoy_counts (loop_body lcut mf mp wd sf st line))
           \<subseteq> keys (total_counts (loop_body lcut mf mp wd sf st line)) \<and>
         positive (total_counts (loop_body lcut mf mp wd sf st line)) \<and>
         positive (annoy_counts (loop_body lcut mf mp wd sf st line))"
proof (cases rule: loop_body_cases [of line lcut mf mp wd sf st])
  case (header d)
  then show ?thesis using assms by simp
next
  case skip
  then show ?thesis using assms by simp
next
  case accept
  then show ?thesis using assms
    by (auto simp add: account_total account_annoy keys_increment positive_increment)
qed

lemma loop_body_annoy_le:
  assumes "sum_values (annoy_counts st) \<le> sum_values (total_counts st)"
  shows "sum_values (annoy_counts (loop_body lcut mf mp wd sf st line))
           \<le> sum_values (total_counts (loop_body lcut mf mp wd sf st line))"
proof (cases rule: loop_body_cases [of line lcut mf mp wd sf st])
  case (header d)
  then show ?thesis using assms by simp
next
  case skip
  then show ?thesis using assms by simp
next
  case accept
  then show ?thesis using assms
    by (simp add: account_total account_annoy sum_values_increment)
qed

lemma run_loop_total:
  "header_ok st \<Longrightarrow>
   sum_values (total_counts (run_loop lcut mf mp wd sf st lines)) =
     sum_values (total_counts st) +
     int (length (filter (accepts mf) (spec_records (pending st @ map strip lines))))"
proof (induction lines arbitrary: st)
  case Nil
  then show ?case by (simp add: run_loop_Nil pending_def)
next
  case (Cons l ls)
  let ?st' = "loop_body lcut mf mp wd sf st l"
  show ?case
  proof (cases rule: loop_body_cases [of l lcut mf mp wd sf st])
    case (header d)
    then have ok: "header_ok ?st'" by (simp add: header_ok_def)
    have p: "pending ?st' = [strip l]" using header by (simp add: pending_def)
    have "spec_records (pending st @ strip l # map strip ls) = spec_records (strip l # map strip ls)"
      using Cons.prems header(1) by (simp add: pending_def header_ok_def)
    then show ?thesis using Cons.IH [OF ok] header(2) p by (simp add: run_loop_Cons)
  next
    case skip
    then have ok: "header_ok ?st'" by (simp add: header_ok_def)
    have p: "pending ?st' = []" using skip by (simp add: pending_def)
    have "filter (accepts mf) (spec_records (pending st @ strip l # map strip ls)) =
          filter (accepts mf) (spec_records (map strip ls))"
      using Cons.prems skip(1,3)
      by (auto simp add: pending_def header_ok_def spec_records_skip accepts_def)
    then show ?thesis using Cons.IH [OF ok] skip(2) p by (simp add: run_loop_Cons)
  next
    case accept
    then have ok: "header_ok ?st'" by (simp add: header_ok_def account_prev)
    have p: "pending ?st' = []" using accept by (simp add: pending_def account_prev)
    have "filter (accepts mf) (spec_records (pending st @ strip l # map strip ls)) =
          (prev_date st, name_of (name_qq_of (prev_info_line st)),
             qq_of (name_qq_of (prev_info_line st)), strip l)
          # filter (accepts mf) (spec_records (map strip ls))"
      using Cons.prems accept(1,2,3)
      by (simp add: pending_def header_ok_def accepts_def)
    then show ?thesis using Cons.IH [OF ok] accept(4) p
      by (simp add: run_loop_Cons account_total sum_values_increment)
  qed
qed


section \<open>Strings\<close>

lemma takeWhile_until: "c \<notin> set xs \<Longrightarrow> takeWhile (\<lambda>x. x \<noteq> c) (xs @ c # ys) = xs"
  by (induction xs) auto

lemma rfind_last: "c \<notin> set b \<Longrightarrow> rfind c (a @ c # b) = int (length a)"
proof -
  assume nb: "c \<notin> set b"
  have "takeWhile (\<lambda>x. x \<noteq> c) (rev b @ c # rev a) = rev b"
    using nb by (simp add: takeWhile_until)
  then show ?thesis by (simp add: rfind_def)
qed

lemma rfind_absent: "c \<notin> set s \<Longrightarrow> rfind c s = - 1"
  by (simp add: rfind_def)

lemma slice_to_end_minus_one: "py_slice s 0 (- 1) = butlast s"
proof -
  have "nat (int (length s) + - 1) = length s - 1" by arith
  then show ?thesis by (simp add: py_slice_def slice_index_def butlast_conv_take)
qed

lemma slice_prefix: "py_slice (a @ c # b) 0 (int (length a)) = a"
  by (simp add: py_slice_def slice_index_def)

lemma slice_between: "py_slice (a @ c # b) (int (length a) + 1) (- 1) = butlast b"
proof -
  have hi: "slice_index (- 1) (length (a @ c # b)) = length a + length b"
    by (simp add: slice_index_def)
  have lo: "slice_index (int (length a) + 1) (length (a @ c # b)) = Suc (length a)"
    by (simp add: slice_index_def)
  have "drop (Suc (length a)) (take (length a + length b) (a @ c # b)) = butlast b"
    by (cases b rule: rev_cases) simp_all
  then show ?thesis unfolding py_slice_def hi lo .
qed

lemma index_paren:
  "CHR ''('' \<notin> set b \<Longrightarrow> left_parenthesis_index (a @ CHR ''('' # b) = int (length a)"
  by (simp add: left_parenthesis_index_def rfind_last)

lemma index_angle:
  "CHR ''('' \<notin> set a \<Longrightarrow> CHR ''('' \<notin> set b \<Longrightarrow> CHR ''<'' \<notin> set b \<Longrightarrow>
   left_parenthesis_index (a @ CHR ''<'' # b) = int (length a)"
  by (simp add: left_parenthesis_index_def rfind_last rfind_absent)

lemma index_none:
  "CHR ''('' \<notin> set s \<Longrightarrow> CHR ''<'' \<notin> set s \<Longrightarrow> left_parenthesis_index s = - 1"
  by (simp add: left_parenthesis_index_def rfind_absent)

lemma split_on_nonempty: "split_on sep s \<noteq> []"
  by (induction s) (auto split: list.splits)

lemma split_on_token:
  "sep \<notin> set t \<Longrightarrow> split_on sep (t @ sep # r) = t # split_on sep r"
  by (induction t) auto

lemma join_split_on: "join [sep] (split_on sep s) = s"
proof (induction s)
  case Nil
  then show ?case by simp
next
  case (Cons c cs)
  obtain w ws where ws: "split_on sep cs = w # ws"
    using split_on_nonempty [of sep cs] by (cases "split_on sep cs") auto
  show ?case
  proof (cases "c = sep")
    case True
    then show ?thesis using Cons ws by simp
  next
    case False
    then show ?thesis using Cons ws by (cases ws) auto
  qed
qed

lemma name_qq_of_tokens:
  "CHR '' '' \<notin> set t1 \<Longrightarrow> CHR '' '' \<notin> set t2 \<Longrightarrow>
   name_qq_of (t1 @ CHR '' '' # t2 @ CHR '' '' # rest) = rest"
  by (simp add: name_qq_of_def split_on_token join_split_on)


section \<open>Properties of get_statistics\<close>

lemma get_statistics_readable:
  "fs msgs_path = Some lines \<Longrightarrow>
   get_statistics fs lcut msgs_path mf mp wd sf =
     Inr (words (run_loop lcut mf mp wd sf init_state lines),
          total_counts (run_loop lcut mf mp wd sf init_state lines),
          annoy_counts (run_loop lcut mf mp wd sf init_state lines),
          speak_counts (run_loop lcut mf mp wd sf init_state lines),
          card_names (run_loop lcut mf mp wd sf init_state lines))"
  by (simp add: get_statistics_def Let_def)

lemma alice_header:
  "match_date ''2023-09-15 10:00:00 Alice(111)'' = Some ''2023-09-15''"
  by (simp add: match_date_def is_digit_def)

lemma hello_no_header: "match_date ''hello world'' = None"
  by (simp add: match_date_def is_digit_def)

lemma alice_name_qq: "name_qq_of ''2023-09-15 10:00:00 Alice(111)'' = ''Alice(111)''"
  by (simp add: name_qq_of_def)

lemma alice_name: "name_of ''Alice(111)'' = ''Alice''"
  using slice_prefix [of "''Alice''" "CHR ''(''" "''111)''"]
    index_paren [of "''111)''" "''Alice''"]
  by (simp add: name_of_def)

lemma alice_qq: "qq_of ''Alice(111)'' = ''111''"
  using slice_between [of "''Alice''" "CHR ''(''" "''111)''"]
    index_paren [of "''111)''" "''Alice''"]
  by (simp add: qq_of_def)

lemma no_annoy_keys_step:
  assumes "''80000000'' \<notin> keys (speak_counts st) \<and> ''80000000'' \<notin> keys (card_names st)"
  shows "''80000000'' \<notin> keys (speak_counts
            (loop_body lcut mf mp wd (Some no_annoy_sys_speak_filter) st line)) \<and>
         ''80000000'' \<notin> keys (card_names
            (loop_body lcut mf mp wd (Some no_annoy_sys_speak_filter) st line))"
proof (cases rule: loop_body_cases [of line lcut mf mp wd "Some no_annoy_sys_speak_filter" st])
  case (header d)
  then show ?thesis using assms by simp
next
  case skip
  then show ?thesis using assms by simp
next
  case accept
  then show ?thesis using assms
    by (auto simp add: account_speak account_card keys_increment keys_update passes2_def
        no_annoy_sys_speak_filter_def)
qed

lemma example_pending_eq:
  "example_pending = init_state\<lparr> prev_is_info_line := True,
     prev_info_line := ''2023-09-15 10:01:00 Anon(80000000)'', prev_date := ''2023-09-15'' \<rparr>"
proof -
  have s: "strip ''2023-09-15 10:01:00 Anon(80000000)'' = ''2023-09-15 10:01:00 Anon(80000000)''"
    by (simp add: strip_def is_space_def)
  have "match_date ''2023-09-15 10:01:00 Anon(80000000)'' = Some ''2023-09-15''"
    by (simp add: match_date_def is_digit_def)
  then show ?thesis
    unfolding example_pending_def
    using loop_body_header [of "''2023-09-15 10:01:00 Anon(80000000)''" "''2023-09-15''"
        example_lcut None None None None init_state]
    by (simp add: s)
qed

lemma name_qq_paren:
  "CHR ''('' \<notin> set b \<Longrightarrow>
   name_of (a @ CHR ''('' # b) = a \<and> qq_of (a @ CHR ''('' # b) = butlast b"
  by (simp add: name_of_def qq_of_def index_paren slice_prefix slice_between)

lemma name_qq_angle:
  "CHR ''('' \<notin> set a \<Longrightarrow> CHR ''('' \<notin> set b \<Longrightarrow> CHR ''<'' \<notin> set b \<Longrightarrow>
   name_of (a @ CHR ''<'' # b) = a \<and> qq_of (a @ CHR ''<'' # b) = butlast b"
  by (simp add: name_of_def qq_of_def index_angle slice_prefix slice_between)

lemma name_qq_none:
  "CHR ''('' \<notin> set s \<Longrightarrow> CHR ''<'' \<notin> set s \<Longrightarrow>
   name_of s = butlast s \<and> qq_of s = butlast s"
  by (simp add: name_of_def qq_of_def index_none slice_to_end_minus_one)

lemma example_run:
  "get_statistics example_files example_lcut ''chat.txt'' None None None None =
     Inr ([''hello'', ''world'', ''a'', ''secret'', ''bye''],
          [(''2023-09-15'', 2), (''2023-09-16'', 1)],
          [(''2023-09-15'', 1)],
          [(''111'', 1), (''80000000'', 1), (''222'', 1)],
          [(''111'', ''Alice''), (''80000000'', ''Anon''), (''222'', ''Bob'')])"
  by code_simp


lemma run_loop_count:
  assumes ok: "header_ok st"
    and hdr: "\<And>s d i. f (s\<lparr> prev_is_info_line := True, prev_info_line := i, prev_date := d \<rparr>) = f s"
    and off: "\<And>s. f (s\<lparr> prev_is_info_line := False \<rparr>) = f s"
    and acc: "\<And>s name qq i. f (account lcut mp wd sf name qq i s) =
                f s + (if P (prev_date s, name, qq, i) then 1 else 0)"
  shows "f (run_loop lcut mf mp wd sf st lines) =
     f st + int (length (filter P (filter (accepts mf)
                (spec_records (pending st @ map strip lines)))))"
  using ok
proof (induction lines arbitrary: st)
  case Nil
  then show ?case by (simp add: run_loop_Nil pending_def)
next
  case (Cons l ls)
  let ?st' = "loop_body lcut mf mp wd sf st l"
  show ?case
  proof (cases rule: loop_body_cases [of l lcut mf mp wd sf st])
    case (header d)
    then have ok': "header_ok ?st'" by (simp add: header_ok_def)
    have p: "pending ?st' = [strip l]" using header by (simp add: pending_def)
    have "spec_records (pending st @ strip l # map strip ls) = spec_records (strip l # map strip ls)"
      using Cons.prems header(1) by (simp add: pending_def header_ok_def)
    then show ?thesis using Cons.IH [OF ok'] header(2) p by (simp add: run_loop_Cons hdr)
  next
    case skip
    then have ok': "header_ok ?st'" by (simp add: header_ok_def)
    have p: "pending ?st' = []" using skip by (simp add: pending_def)
    have "filter (accepts mf) (spec_records (pending st @ strip l # map strip ls)) =
          filter (accepts mf) (spec_records (map strip ls))"
      using Cons.prems skip(1,3)
      by (auto simp add: pending_def header_ok_def spec_records_skip accepts_def)
    then show ?thesis using Cons.IH [OF ok'] skip(2) p by (simp add: run_loop_Cons off)
  next
    case accept
    then have ok': "header_ok ?st'" by (simp add: header_ok_def account_prev)
    have p: "pending ?st' = []" using accept by (simp add: pending_def account_prev)
    have "filter (accepts mf) (spec_records (pending st @ strip l # map strip ls)) =
          (prev_date st, name_of (name_qq_of (prev_info_line st)),
             qq_of (name_qq_of (prev_info_line st)), strip l)
          # filter (accepts mf) (spec_records (map strip ls))"
      using Cons.prems accept(1,2,3)
      by (simp add: pending_def header_ok_def accepts_def)
    then show ?thesis using Cons.IH [OF ok'] accept(4) p
      by (simp add: run_loop_Cons acc off)
  qed
qed

lemma run_loop_total_of_date:
  "count_of (total_counts (run_loop lcut mf mp wd sf init_state lines)) d =
     int (length (filter (\<lambda>(d', n, q, m). d' = d) (accepted_records mf lines)))"
proof -
  have ok: "header_ok init_state" by (simp add: header_ok_def init_state_def)
  have "count_of (total_counts (run_loop lcut mf mp wd sf init_state lines)) d =
      count_of (total_counts init_state) d +
      int (length (filter (\<lambda>(d', n, q, m). d' = d) (filter (accepts mf)
                (spec_records (pending init_state @ map strip lines)))))"
    by (rule run_loop_count [OF ok]) (auto simp add: account_total count_of_increment)
  then show ?thesis
    by (simp add: init_state_def pending_def count_of_def accepted_records_def)
qed

lemma run_loop_annoy_of_date:
  "count_of (annoy_counts (run_loop lcut mf mp wd sf init_state lines)) d =
     int (length (filter (\<lambda>(d', n, q, m). d' = d \<and> q = ''80000000'')
        (accepted_records mf lines)))"
proof -
  have ok: "header_ok init_state" by (simp add: header_ok_def init_state_def)
  have "count_of (annoy_counts (run_loop lcut mf mp wd sf init_state lines)) d =
      count_of (annoy_counts init_state) d +
      int (length (filter (\<lambda>(d', n, q, m). d' = d \<and> q = ''80000000'') (filter (accepts mf)
                (spec_records (pending init_state @ map strip lines)))))"
    by (rule run_loop_count [OF ok]) (auto simp add: account_annoy count_of_increment)
  then show ?thesis
    by (simp add: init_state_def pending_def count_of_def accepted_records_def)
qed

lemma assignments_reset: "assign_prev (assign_accumulators st) = init_state"
  by (simp add: assign_prev_def assign_accumulators_def init_state_def)

lemma get_statistics_call_result:
  "fst (get_statistics_call st fs lcut msgs_path mf mp wd sf) =
     get_statistics fs lcut msgs_path mf mp wd sf"
  by (simp add: get_statistics_call_def get_statistics_def assignments_reset Let_def
      split: option.split)


section \<open>The claims\<close>

text \<open>
  Claim C1. Whenever the transcript can be read, \<open>get_statistics\<close> returns, the sum
  of the values of the total-count map is the number of records that \<open>msg_filter\<close>
  accepts, and that sum is at least the sum of the values of the anonymous-count map.
\<close>

theorem total_counts_sum:
  assumes "fs msgs_path = Some lines"
  shows "\<exists>ws tc ac sc cn.
           get_statistics fs lcut msgs_path mf mp wd sf = Inr (ws, tc, ac, sc, cn) \<and>
           sum_values tc = int (length (accepted_records mf lines)) \<and>
           sum_values ac \<le> sum_values tc"
proof -
  let ?st = "run_loop lcut mf mp wd sf init_state lines"
  have "header_ok init_state" by (simp add: header_ok_def init_state_def)
  from run_loop_total [OF this, of lcut mf mp wd sf lines]
  have total: "sum_values (total_counts ?st) = int (length (accepted_records mf lines))"
    by (simp add: init_state_def pending_def sum_values_def accepted_records_def)
  have "sum_values (annoy_counts init_state) \<le> sum_values (total_counts init_state)"
    by (simp add: init_state_def)
  then have le: "sum_values (annoy_counts ?st) \<le> sum_values (total_counts ?st)"
    by (rule run_loop_invariant) (rule loop_body_annoy_le)
  show ?thesis
    using assms get_statistics_readable [of fs msgs_path lines lcut mf mp wd sf] total le
    by simp
qed

theorem total_counts_sum_witness:
  "example_files ''chat.txt'' = Some example_lines \<and>
   length (accepted_records (Some (\<lambda>d n q m. q \<noteq> ''111'')) example_lines) = 2 \<and>
   (\<exists>ws tc ac sc cn.
      get_statistics example_files example_lcut ''chat.txt''
        (Some (\<lambda>d n q m. q \<noteq> ''111'')) None None None = Inr (ws, tc, ac, sc, cn) \<and>
      sum_values tc = 2 \<and>
      sum_values ac \<le> sum_values tc)"
proof -
  have h: "example_files ''chat.txt'' = Some example_lines"
    by (simp add: example_files_def)
  have n: "length (accepted_records (Some (\<lambda>d n q m. q \<noteq> ''111'')) example_lines) = 2"
    by code_simp
  show ?thesis
    using h n total_counts_sum [of example_files "''chat.txt''" example_lines example_lcut
      "Some (\<lambda>d n q m. q \<noteq> ''111'')" None None None]
    by simp
qed

text \<open>
  Claim C2. A transcript of the header line \<open>2023-09-15 10:00:00 Alice(111)\<close> followed
  by the body line \<open>hello world\<close>, with a \<open>msg_filter\<close> that accepts the record and
  no \<open>speak_filter\<close>: the total count of \<open>2023-09-15\<close> is 1, the speak count of
  \<open>111\<close> is 1 and the card name of \<open>111\<close> is \<open>Alice\<close>.
\<close>

theorem alice_scenario:
  assumes "fs msgs_path = Some [l1, l2]"
    and "strip l1 = ''2023-09-15 10:00:00 Alice(111)''"
    and "strip l2 = ''hello world''"
    and "passes4 mf ''2023-09-15'' ''Alice'' ''111'' ''hello world''"
  shows "\<exists>ws tc ac sc cn.
           get_statistics fs lcut msgs_path mf mp wd None = Inr (ws, tc, ac, sc, cn) \<and>
           map_of tc ''2023-09-15'' = Some 1 \<and>
           map_of sc ''111'' = Some 1 \<and>
           map_of cn ''111'' = Some ''Alice''"
proof -
  define s1 where "s1 = init_state\<lparr> prev_is_info_line := True,
      prev_info_line := ''2023-09-15 10:00:00 Alice(111)'', prev_date := ''2023-09-15'' \<rparr>"
  have s1: "prev_is_info_line s1" "prev_info_line s1 = ''2023-09-15 10:00:00 Alice(111)''"
    "prev_date s1 = ''2023-09-15''" "total_counts s1 = []" "speak_counts s1 = []"
    "card_names s1 = []"
    by (simp_all add: s1_def init_state_def)
  let ?s2 = "loop_body lcut mf mp wd None s1 l2"
  have st1: "loop_body lcut mf mp wd None init_state l1 = s1"
    using loop_body_header [of l1 "''2023-09-15''" lcut mf mp wd None init_state]
    by (simp add: assms(2) alice_header s1_def)
  have st2: "?s2 = account lcut mp wd None ''Alice'' ''111'' ''hello world''
      (s1\<lparr> prev_is_info_line := False \<rparr>)"
    using loop_body_accepted [of l2 s1 mf lcut mp wd None] assms(4)
    by (simp add: s1 assms(3) hello_no_header alice_name_qq alice_name alice_qq)
  have tc: "total_counts ?s2 = [(''2023-09-15'', 1)]"
    by (simp add: st2 account_total s1 increment_def)
  have sc: "speak_counts ?s2 = [(''111'', 1)]"
    by (simp add: st2 account_speak s1 increment_def passes2_def)
  have cn: "card_names ?s2 = [(''111'', ''Alice'')]"
    by (simp add: st2 account_card s1 passes2_def)
  have run: "run_loop lcut mf mp wd None init_state [l1, l2] = ?s2"
    by (simp add: run_loop_Cons run_loop_Nil st1)
  show ?thesis
    using assms(1) get_statistics_readable [of fs msgs_path "[l1, l2]" lcut mf mp wd None]
    by (simp add: run tc sc cn)
qed

theorem alice_scenario_witness:
  "strip (''2023-09-15 10:00:00 Alice(111)'' @ [CHR 0x0A]) = ''2023-09-15 10:00:00 Alice(111)'' \<and>
   strip (''hello world'' @ [CHR 0x0A]) = ''hello world'' \<and>
   passes4 (Some (\<lambda>d n q m. q \<noteq> ''1000000'')) ''2023-09-15'' ''Alice'' ''111''
     ''hello world'' \<and>
   (\<exists>ws tc ac sc cn.
      get_statistics
        (\<lambda>p. Some [''2023-09-15 10:00:00 Alice(111)'' @ [CHR 0x0A],
                     ''hello world'' @ [CHR 0x0A]])
        example_lcut ''chat.txt''
        (Some (\<lambda>d n q m. q \<noteq> ''1000000'')) (Some qq_msg_preprocessor) None None
        = Inr (ws, tc, ac, sc, cn) \<and>
      map_of tc ''2023-09-15'' = Some 1 \<and>
      map_of sc ''111'' = Some 1 \<and>
      map_of cn ''111'' = Some ''Alice'')"
proof -
  have s1: "strip (''2023-09-15 10:00:00 Alice(111)'' @ [CHR 0x0A])
      = ''2023-09-15 10:00:00 Alice(111)''"
    by (simp add: strip_def is_space_def)
  have s2: "strip (''hello world'' @ [CHR 0x0A]) = ''hello world''"
    by (simp add: strip_def is_space_def)
  have p: "passes4 (Some (\<lambda>d n q m. q \<noteq> ''1000000'')) ''2023-09-15'' ''Alice'' ''111''
      ''hello world''"
    by (simp add: passes4_def)
  have f: "(\<lambda>p. Some [''2023-09-15 10:00:00 Alice(111)'' @ [CHR 0x0A],
                     ''hello world'' @ [CHR 0x0A]]) ''chat.txt''
      = Some [''2023-09-15 10:00:00 Alice(111)'' @ [CHR 0x0A], ''hello world'' @ [CHR 0x0A]]"
    by (rule refl)
  from alice_scenario [of "\<lambda>p. Some [''2023-09-15 10:00:00 Alice(111)'' @ [CHR 0x0A],
                     ''hello world'' @ [CHR 0x0A]]" "''chat.txt''"
        "''2023-09-15 10:00:00 Alice(111)'' @ [CHR 0x0A]" "''hello world'' @ [CHR 0x0A]"
        "Some (\<lambda>d n q m. q \<noteq> ''1000000'')" example_lcut "Some qq_msg_preprocessor" None,
        OF f s1 s2 p]
  show ?thesis using s1 s2 p by blast
qed

text \<open>
  Claim C3. For every transcript that can be read, \<open>get_statistics\<close> returns, and for
  every date the total count is the number of accepted records of that date and the
  anonymous count is the number of accepted records of that date whose sender id is
  \<open>80000000\<close>: each such record adds one to both. With \<open>no_annoy_sys_speak_filter\<close>
  as the speak filter, \<open>80000000\<close> is a key of neither the speak-count map nor the
  card-name map. In the loop itself, reading the body line of such a record adds one to
  both counts of its date and leaves the speak-count and card-name maps as they were.
\<close>

theorem anonymous_record_counts:
  assumes "fs msgs_path = Some lines"
  shows "(\<exists>ws tc ac sc cn.
            get_statistics fs lcut msgs_path mf mp wd sf = Inr (ws, tc, ac, sc, cn) \<and>
            count_of tc d =
              int (length (filter (\<lambda>(d', n, q, m). d' = d) (accepted_records mf lines))) \<and>
            count_of ac d =
              int (length (filter (\<lambda>(d', n, q, m). d' = d \<and> q = ''80000000'')
                     (accepted_records mf lines))) \<and>
            (sf = Some no_annoy_sys_speak_filter \<longrightarrow>
               ''80000000'' \<notin> keys sc \<and> ''80000000'' \<notin> keys cn)) \<and>
         (prev_is_info_line st \<and> match_date (strip line) = None \<and>
          qq_of (name_qq_of (prev_info_line st)) = ''80000000'' \<and>
          passes4 mf (prev_date st) (name_of (name_qq_of (prev_info_line st)))
            ''80000000'' (strip line) \<longrightarrow>
            count_of (total_counts (loop_body lcut mf mp wd sf st line)) (prev_date st) =
              count_of (total_counts st) (prev_date st) + 1 \<and>
            count_of (annoy_counts (loop_body lcut mf mp wd sf st line)) (prev_date st) =
              count_of (annoy_counts st) (prev_date st) + 1 \<and>
            speak_counts (loop_body lcut mf mp wd (Some no_annoy_sys_speak_filter) st line) =
              speak_counts st \<and>
            card_names (loop_body lcut mf mp wd (Some no_annoy_sys_speak_filter) st line) =
              card_names st)"
proof -
  let ?st = "run_loop lcut mf mp wd sf init_state lines"
  have keys: "''80000000'' \<notin> keys (speak_counts ?st) \<and> ''80000000'' \<notin> keys (card_names ?st)"
    if sf: "sf = Some no_annoy_sys_speak_filter"
  proof -
    have "''80000000'' \<notin> keys (speak_counts init_state) \<and>
          ''80000000'' \<notin> keys (card_names init_state)"
      by (simp add: init_state_def keys_def)
    then have "''80000000'' \<notin> keys (speak_counts
            (run_loop lcut mf mp wd (Some no_annoy_sys_speak_filter) init_state lines)) \<and>
          ''80000000'' \<notin> keys (card_names
            (run_loop lcut mf mp wd (Some no_annoy_sys_speak_filter) init_state lines))"
      by (rule run_loop_invariant) (rule no_annoy_keys_step)
    then show ?thesis by (simp add: sf)
  qed
  have whole: "\<exists>ws tc ac sc cn.
            get_statistics fs lcut msgs_path mf mp wd sf = Inr (ws, tc, ac, sc, cn) \<and>
            count_of tc d =
              int (length (filter (\<lambda>(d', n, q, m). d' = d) (accepted_records mf lines))) \<and>
            count_of ac d =
              int (length (filter (\<lambda>(d', n, q, m). d' = d \<and> q = ''80000000'')
                     (accepted_records mf lines))) \<and>
            (sf = Some no_annoy_sys_speak_filter \<longrightarrow>
               ''80000000'' \<notin> keys sc \<and> ''80000000'' \<notin> keys cn)"
    using assms get_statistics_readable [of fs msgs_path lines lcut mf mp wd sf]
      run_loop_total_of_date [of lcut mf mp wd sf lines d]
      run_loop_annoy_of_date [of lcut mf mp wd sf lines d] keys
    by simp
  have step: "count_of (total_counts (loop_body lcut mf mp wd sf st line)) (prev_date st) =
              count_of (total_counts st) (prev_date st) + 1 \<and>
            count_of (annoy_counts (loop_body lcut mf mp wd sf st line)) (prev_date st) =
              count_of (annoy_counts st) (prev_date st) + 1 \<and>
            speak_counts (loop_body lcut mf mp wd (Some no_annoy_sys_speak_filter) st line) =
              speak_counts st \<and>
            card_names (loop_body lcut mf mp wd (Some no_annoy_sys_speak_filter) st line) =
              card_names st"
    if h: "prev_is_info_line st" "match_date (strip line) = None"
      "qq_of (name_qq_of (prev_info_line st)) = ''80000000''"
      "passes4 mf (prev_date st) (name_of (name_qq_of (prev_info_line st)))
            ''80000000'' (strip line)"
  proof -
    have eq: "loop_body lcut mf mp wd f st line =
        account lcut mp wd f (name_of (name_qq_of (prev_info_line st))) ''80000000''
          (strip line) (st\<lparr> prev_is_info_line := False \<rparr>)" for f
      using loop_body_accepted [of line st mf lcut mp wd f] h by simp
    show ?thesis
      by (simp add: eq account_total account_annoy account_speak account_card
          count_of_increment passes2_def no_annoy_sys_speak_filter_def)
  qed
  from whole step show ?thesis by blast
qed

theorem anonymous_record_counts_witness:
  "example_files ''chat.txt'' = Some example_lines \<and>
   (\<exists>ws tc ac sc cn.
      get_statistics example_files example_lcut ''chat.txt'' None None None
        (Some no_annoy_sys_speak_filter) = Inr (ws, tc, ac, sc, cn) \<and>
      count_of tc ''2023-09-15'' = 2 \<and> count_of ac ''2023-09-15'' = 1 \<and>
      ''80000000'' \<notin> keys sc \<and> ''80000000'' \<notin> keys cn) \<and>
   prev_is_info_line example_pending \<and>
   match_date (strip ''a secret'') = None \<and>
   qq_of (name_qq_of (prev_info_line example_pending)) = ''80000000'' \<and>
   passes4 None (prev_date example_pending)
     (name_of (name_qq_of (prev_info_line example_pending))) ''80000000'' (strip ''a secret'') \<and>
   count_of (total_counts (loop_body example_lcut None None None
      (Some no_annoy_sys_speak_filter) example_pending ''a secret'')) ''2023-09-15'' = 1 \<and>
   count_of (annoy_counts (loop_body example_lcut None None None
      (Some no_annoy_sys_speak_filter) example_pending ''a secret'')) ''2023-09-15'' = 1 \<and>
   speak_counts (loop_body example_lcut None None None (Some no_annoy_sys_speak_filter)
      example_pending ''a secret'') = [] \<and>
   card_names (loop_body example_lcut None None None (Some no_annoy_sys_speak_filter)
      example_pending ''a secret'') = []"
proof -
  have f: "prev_is_info_line example_pending"
    "prev_info_line example_pending = ''2023-09-15 10:01:00 Anon(80000000)''"
    "prev_date example_pending = ''2023-09-15''"
    "total_counts example_pending = []" "annoy_counts example_pending = []"
    "speak_counts example_pending = []" "card_names example_pending = []"
    by (simp_all add: example_pending_eq init_state_def)
  have m: "match_date (strip ''a secret'') = None"
    by (simp add: strip_def is_space_def match_date_def is_digit_def)
  have nq: "name_qq_of ''2023-09-15 10:01:00 Anon(80000000)'' = ''Anon(80000000)''"
    by (simp add: name_qq_of_def)
  have q: "qq_of (name_qq_of (prev_info_line example_pending)) = ''80000000''"
    using slice_between [of "''Anon''" "CHR ''(''" "''80000000)''"]
      index_paren [of "''80000000)''" "''Anon''"]
    by (simp add: f nq qq_of_def)
  have p: "passes4 None (prev_date example_pending)
     (name_of (name_qq_of (prev_info_line example_pending))) ''80000000'' (strip ''a secret'')"
    by (simp add: passes4_def)
  have h: "example_files ''chat.txt'' = Some example_lines"
    by (simp add: example_files_def)
  have n1: "length (filter (\<lambda>(d', n, q, m). d' = ''2023-09-15'')
      (accepted_records None example_lines)) = 2"
    by code_simp
  have n2: "length (filter (\<lambda>(d', n, q, m). d' = ''2023-09-15'' \<and> q = ''80000000'')
      (accepted_records None example_lines)) = 1"
    by code_simp
  note t = anonymous_record_counts [of example_files "''chat.txt''" example_lines example_lcut
        None None None "Some no_annoy_sys_speak_filter" "''2023-09-15''" example_pending
        "''a secret''", unfolded n1 n2]
  show ?thesis
    using t f(1) m q p h by (simp add: f count_of_def)
qed

text \<open>
  Claim C4. Whenever the transcript can be read, the speak-count map and the
  card-name map that \<open>get_statistics\<close> returns have the same set of keys.
\<close>

theorem speak_and_card_keys:
  assumes "fs msgs_path = Some lines"
  shows "\<exists>ws tc ac sc cn.
           get_statistics fs lcut msgs_path mf mp wd sf = Inr (ws, tc, ac, sc, cn) \<and>
           keys sc = keys cn"
proof -
  let ?st = "run_loop lcut mf mp wd sf init_state lines"
  have "keys (speak_counts init_state) = keys (card_names init_state)"
    by (simp add: init_state_def keys_def)
  then have "keys (speak_counts ?st) = keys (card_names ?st)"
    by (rule run_loop_invariant) (rule loop_body_same_keys)
  then show ?thesis
    using assms get_statistics_readable [of fs msgs_path lines lcut mf mp wd sf] by simp
qed

theorem speak_and_card_keys_witness:
  "example_files ''chat.txt'' = Some example_lines \<and>
   (\<exists>ws tc ac sc cn.
      get_statistics example_files example_lcut ''chat.txt'' None None None
        (Some no_annoy_sys_speak_filter) = Inr (ws, tc, ac, sc, cn) \<and>
      keys sc = keys cn)"
proof -
  have h: "example_files ''chat.txt'' = Some example_lines"
    by (simp add: example_files_def)
  show ?thesis
    using h speak_and_card_keys [of example_files "''chat.txt''" example_lines example_lcut
      None None None "Some no_annoy_sys_speak_filter"]
    by simp
qed

text \<open>
  Claim C5. Whenever the transcript can be read, every date that is a key of the
  anonymous-count map is a key of the total-count map, and no entry of either map is
  zero: every stored count is at least 1.
\<close>

theorem day_counts_keys_and_values:
  assumes "fs msgs_path = Some lines"
  shows "\<exists>ws tc ac sc cn.
           get_statistics fs lcut msgs_path mf mp wd sf = Inr (ws, tc, ac, sc, cn) \<and>
           keys ac \<subseteq> keys tc \<and>
           (\<forall>(d, n) \<in> set tc. n \<noteq> 0 \<and> 1 \<le> n) \<and>
           (\<forall>(d, n) \<in> set ac. n \<noteq> 0 \<and> 1 \<le> n)"
proof -
  let ?st = "run_loop lcut mf mp wd sf init_state lines"
  have "keys (annoy_counts init_state) \<subseteq> keys (total_counts init_state) \<and>
        positive (total_counts init_state) \<and> positive (annoy_counts init_state)"
    by (simp add: init_state_def positive_def keys_def)
  then have "keys (annoy_counts ?st) \<subseteq> keys (total_counts ?st) \<and>
        positive (total_counts ?st) \<and> positive (annoy_counts ?st)"
    by (rule run_loop_invariant) (rule loop_body_day_counts)
  then have "keys (annoy_counts ?st) \<subseteq> keys (total_counts ?st) \<and>
        (\<forall>(d, n) \<in> set (total_counts ?st). n \<noteq> 0 \<and> 1 \<le> n) \<and>
        (\<forall>(d, n) \<in> set (annoy_counts ?st). n \<noteq> 0 \<and> 1 \<le> n)"
    by (fastforce simp add: positive_def)
  then show ?thesis
    using assms get_statistics_readable [of fs msgs_path lines lcut mf mp wd sf] by simp
qed

theorem day_counts_keys_and_values_witness:
  "example_files ''chat.txt'' = Some example_lines \<and>
   (\<exists>ws tc ac sc cn.
      get_statistics example_files example_lcut ''chat.txt'' None None None None
        = Inr (ws, tc, ac, sc, cn) \<and>
      keys ac \<subseteq> keys tc \<and>
      (\<forall>(d, n) \<in> set tc. n \<noteq> 0 \<and> 1 \<le> n) \<and>
      (\<forall>(d, n) \<in> set ac. n \<noteq> 0 \<and> 1 \<le> n))"
proof -
  have h: "example_files ''chat.txt'' = Some example_lines"
    by (simp add: example_files_def)
  show ?thesis
    using h day_counts_keys_and_values [of example_files "''chat.txt''" example_lines
      example_lcut None None None None]
    by simp
qed

text \<open>
  Claim C6. The name field of a header line is what follows its first two
  space-separated tokens. It is split at its last \<open>(\<close>, or, when it has no \<open>(\<close>,
  at its last \<open><\<close>: the name is what stands before the delimiter and the id is what
  stands between the delimiter and the last character. So the name field \<open>Bob<222>\<close>
  gives the id \<open>222\<close>, as \<open>Bob(222)\<close> does.
\<close>

theorem header_name_and_id:
  "(CHR '' '' \<notin> set t1 \<and> CHR '' '' \<notin> set t2 \<longrightarrow>
      name_qq_of (t1 @ CHR '' '' # t2 @ CHR '' '' # rest) = rest) \<and>
   (CHR ''('' \<notin> set b \<longrightarrow>
      name_of (a @ CHR ''('' # b) = a \<and> qq_of (a @ CHR ''('' # b) = butlast b) \<and>
   (CHR ''('' \<notin> set a \<and> CHR ''('' \<notin> set b \<and> CHR ''<'' \<notin> set b \<longrightarrow>
      name_of (a @ CHR ''<'' # b) = a \<and> qq_of (a @ CHR ''<'' # b) = butlast b) \<and>
   qq_of (name_qq_of ''2023-09-16 09:00:05 Bob<222>'') = ''222'' \<and>
   qq_of (name_qq_of ''2023-09-16 09:00:05 Bob(222)'') = ''222''"
proof -
  have 1: "name_qq_of ''2023-09-16 09:00:05 Bob<222>'' = ''Bob<222>''"
    using name_qq_of_tokens [of "''2023-09-16''" "''09:00:05''" "''Bob<222>''"] by simp
  have 2: "name_qq_of ''2023-09-16 09:00:05 Bob(222)'' = ''Bob(222)''"
    using name_qq_of_tokens [of "''2023-09-16''" "''09:00:05''" "''Bob(222)''"] by simp
  have 3: "qq_of ''Bob<222>'' = ''222''"
    using name_qq_angle [of "''Bob''" "''222>''"] by simp
  have 4: "qq_of ''Bob(222)'' = ''222''"
    using name_qq_paren [of "''222)''" "''Bob''"] by simp
  show ?thesis
    using name_qq_of_tokens [of t1 t2 rest] name_qq_paren [of b a] name_qq_angle [of a b]
    by (simp add: 1 2 3 4)
qed

theorem header_name_and_id_witness:
  "CHR '' '' \<notin> set ''2023-09-16'' \<and> CHR '' '' \<notin> set ''09:00:05'' \<and>
   name_qq_of ''2023-09-16 09:00:05 Bob<222>'' = ''Bob<222>'' \<and>
   CHR ''('' \<notin> set ''222)'' \<and>
   name_of ''Bob(222)'' = ''Bob'' \<and> qq_of ''Bob(222)'' = ''222'' \<and>
   CHR ''('' \<notin> set ''Bob'' \<and> CHR ''('' \<notin> set ''222>'' \<and> CHR ''<'' \<notin> set ''222>'' \<and>
   name_of ''Bob<222>'' = ''Bob'' \<and> qq_of ''Bob<222>'' = ''222''"
  using header_name_and_id [of "''2023-09-16''" "''09:00:05''" "''Bob<222>''" "''222)''" "''Bob''"]
    header_name_and_id [of "''2023-09-16''" "''09:00:05''" "''Bob<222>''" "''222>''" "''Bob''"]
  by simp

text \<open>
  Claim C7. On \<open>@Bob hello\<close> the preprocessor returns \<open>hello\<close>, as the claim says.
  On \<open>@Bob hello world\<close> it returns \<open>world\<close>: the greedy \<open>.+\<close> runs to the last
  space of the line, so the word \<open>hello\<close> is lost with the mention, where removing
  the mention alone leaves \<open>hello world\<close>.
\<close>

theorem qq_msg_preprocessor_greedy:
  "qq_msg_preprocessor ''@Bob hello'' = ''hello'' \<and>
   spec_strip_mentions ''@Bob hello'' = ''hello'' \<and>
   qq_msg_preprocessor ''@Bob hello world'' = ''world'' \<and>
   spec_strip_mentions ''@Bob hello world'' = ''hello world''"
  by (simp add: qq_msg_preprocessor_def match_dots_space_def rfind_def)

text \<open>
  Claim C8, as stated, fails at the empty token: it has length 0 and is in no
  stop-word set loaded from an empty file, yet \<open>qq_word_filter\<close> returns false.
\<close>

theorem qq_word_filter_empty_token_counterexample:
  "\<not> (qq_word_filter (load_stop_words []) [] =
        (\<not> (length ([] :: string) = 1 \<or> [] \<in> load_stop_words [])))"
  by (simp add: qq_word_filter_def load_stop_words_def)

text \<open>
  Claim C8, amended. \<open>qq_word_filter\<close> returns false for every token of length at
  most 1 (the empty token included) and for every token in the loaded stop-word set,
  and true for every other token; the loaded set holds the stripped lines of the
  stop-word file.
\<close>

theorem qq_word_filter_rejects:
  "(length word \<le> 1 \<longrightarrow> \<not> qq_word_filter (load_stop_words lines) word) \<and>
   (word \<in> load_stop_words lines \<longrightarrow> \<not> qq_word_filter (load_stop_words lines) word) \<and>
   (1 < length word \<and> word \<notin> load_stop_words lines \<longrightarrow>
      qq_word_filter (load_stop_words lines) word) \<and>
   load_stop_words lines = strip ` set lines"
  by (auto simp add: qq_word_filter_def load_stop_words_def)

theorem qq_word_filter_rejects_witness:
  "length '''' \<le> 1 \<and> \<not> qq_word_filter (load_stop_words [''the'' @ [CHR 0x0A]]) '''' \<and>
   length ''a'' \<le> 1 \<and> \<not> qq_word_filter (load_stop_words [''the'' @ [CHR 0x0A]]) ''a'' \<and>
   ''the'' \<in> load_stop_words [''the'' @ [CHR 0x0A]] \<and>
   \<not> qq_word_filter (load_stop_words [''the'' @ [CHR 0x0A]]) ''the'' \<and>
   1 < length ''hello'' \<and> ''hello'' \<notin> load_stop_words [''the'' @ [CHR 0x0A]] \<and>
   qq_word_filter (load_stop_words [''the'' @ [CHR 0x0A]]) ''hello''"
  using qq_word_filter_rejects [of "''''" "[''the'' @ [CHR 0x0A]]"]
    qq_word_filter_rejects [of "''a''" "[''the'' @ [CHR 0x0A]]"]
    qq_word_filter_rejects [of "''the''" "[''the'' @ [CHR 0x0A]]"]
    qq_word_filter_rejects [of "''hello''" "[''the'' @ [CHR 0x0A]]"]
  by (simp add: load_stop_words_def strip_def is_space_def)

text \<open>
  Claim C9. Whatever values the variables of the body hold when a call starts, the
  call returns what \<open>get_statistics\<close> returns on the contents of the transcript: two
  calls that read the same contents with the same callbacks and tokenizer return the
  same error or the same word list and the same four maps, and so does a second call
  that starts from the variables the first call ended with. Every variable the loop
  reads is assigned before the loop, so nothing of an earlier run is left to read.
\<close>

theorem get_statistics_deterministic:
  assumes "fs1 path1 = fs2 path2"
  shows "fst (get_statistics_call st1 fs1 lcut path1 mf mp wd sf) =
           fst (get_statistics_call st2 fs2 lcut path2 mf mp wd sf) \<and>
         fst (get_statistics_call
                (snd (get_statistics_call st1 fs1 lcut path1 mf mp wd sf))
                fs2 lcut path2 mf mp wd sf) =
           fst (get_statistics_call st1 fs1 lcut path1 mf mp wd sf) \<and>
         fst (get_statistics_call st1 fs1 lcut path1 mf mp wd sf) =
           get_statistics fs1 lcut path1 mf mp wd sf"
proof -
  have "get_statistics fs1 lcut path1 mf mp wd sf = get_statistics fs2 lcut path2 mf mp wd sf"
    using assms by (simp add: get_statistics_def)
  then show ?thesis by (simp add: get_statistics_call_result)
qed

theorem get_statistics_deterministic_witness:
  "example_files ''chat.txt'' = (\<lambda>p. Some example_lines) ''copy.txt'' \<and>
   fst (get_statistics_call
          (snd (get_statistics_call init_state example_files example_lcut ''chat.txt''
                  None None None None))
          (\<lambda>p. Some example_lines) example_lcut ''copy.txt'' None None None None) =
     Inr ([''hello'', ''world'', ''a'', ''secret'', ''bye''],
          [(''2023-09-15'', 2), (''2023-09-16'', 1)],
          [(''2023-09-15'', 1)],
          [(''111'', 1), (''80000000'', 1), (''222'', 1)],
          [(''111'', ''Alice''), (''80000000'', ''Anon''), (''222'', ''Bob'')])"
proof -
  have h: "example_files ''chat.txt'' = (\<lambda>p. Some example_lines) ''copy.txt''"
    by (simp add: example_files_def)
  note t = get_statistics_deterministic [of example_files "''chat.txt''"
      "\<lambda>p. Some example_lines" "''copy.txt''" init_state example_lcut None None None None
      init_state, OF h]
  have c2: "fst (get_statistics_call
          (snd (get_statistics_call init_state example_files example_lcut ''chat.txt''
                  None None None None))
          (\<lambda>p. Some example_lines) example_lcut ''copy.txt'' None None None None) =
     fst (get_statistics_call init_state example_files example_lcut ''chat.txt''
                  None None None None)"
    using t by (rule conjunct1 [OF conjunct2])
  have c3: "fst (get_statistics_call init_state example_files example_lcut ''chat.txt''
                  None None None None) =
     get_statistics example_files example_lcut ''chat.txt'' None None None None"
    using t by (rule conjunct2 [OF conjunct2])
  have "fst (get_statistics_call
          (snd (get_statistics_call init_state example_files example_lcut ''chat.txt''
                  None None None None))
          (\<lambda>p. Some example_lines) example_lcut ''copy.txt'' None None None None) =
     Inr ([''hello'', ''world'', ''a'', ''secret'', ''bye''],
          [(''2023-09-15'', 2), (''2023-09-16'', 1)],
          [(''2023-09-15'', 1)],
          [(''111'', 1), (''80000000'', 1), (''222'', 1)],
          [(''111'', ''Alice''), (''80000000'', ''Anon''), (''222'', ''Bob'')])"
    unfolding c2 c3 by (rule example_run)
  with h show ?thesis by (rule conjI)
qed

text \<open>
  Claim C10. When the name field of the header has neither \<open>(\<close> nor \<open><\<close>, both
  \<open>rfind\<close> calls give \<open>-1\<close>, nothing is raised (slicing is total), and the name and
  the id are both the name field without its last character. The record is processed
  with that id: for a transcript of such a header and its body, accepted by the
  filters, \<open>get_statistics\<close> returns the total count 1 for the date, the speak count 1
  for that id and that id's card name; and in the loop, reading the body line adds one
  to the total count of the date and to the speak count of that id, and stores the
  card name under it.
\<close>

theorem header_without_delimiter:
  assumes "CHR ''('' \<notin> set (name_qq_of h)" and "CHR ''<'' \<notin> set (name_qq_of h)"
  shows "left_parenthesis_index (name_qq_of h) = - 1 \<and>
         name_of (name_qq_of h) = butlast (name_qq_of h) \<and>
         qq_of (name_qq_of h) = butlast (name_qq_of h) \<and>
         (fs msgs_path = Some [l1, l2] \<and> strip l1 = h \<and> match_date h = Some d \<and>
          match_date (strip l2) = None \<and>
          passes4 mf d (butlast (name_qq_of h)) (butlast (name_qq_of h)) (strip l2) \<and>
          passes2 sf (butlast (name_qq_of h)) (butlast (name_qq_of h))
          \<longrightarrow>
            (\<exists>ws tc ac sc cn.
               get_statistics fs lcut msgs_path mf mp wd sf = Inr (ws, tc, ac, sc, cn) \<and>
               tc = [(d, 1)] \<and>
               sc = [(butlast (name_qq_of h), 1)] \<and>
               cn = [(butlast (name_qq_of h), butlast (name_qq_of h))])) \<and>
         (prev_is_info_line st \<and> prev_info_line st = h \<and> match_date (strip line) = None \<and>
          passes4 mf (prev_date st) (butlast (name_qq_of h)) (butlast (name_qq_of h)) (strip line)
          \<longrightarrow>
            count_of (total_counts (loop_body lcut mf mp wd sf st line)) (prev_date st) =
              count_of (total_counts st) (prev_date st) + 1 \<and>
            (passes2 sf (butlast (name_qq_of h)) (butlast (name_qq_of h)) \<longrightarrow>
               count_of (speak_counts (loop_body lcut mf mp wd sf st line))
                   (butlast (name_qq_of h)) =
                 count_of (speak_counts st) (butlast (name_qq_of h)) + 1 \<and>
               map_of (card_names (loop_body lcut mf mp wd sf st line))
                   (butlast (name_qq_of h)) = Some (butlast (name_qq_of h))))"
proof -
  let ?b = "butlast (name_qq_of h)"
  have n: "name_of (name_qq_of h) = ?b" and q: "qq_of (name_qq_of h) = ?b"
    using name_qq_none [OF assms] by simp_all
  have body: "loop_body lcut mf mp wd sf s l =
      account lcut mp wd sf ?b ?b (strip l) (s\<lparr> prev_is_info_line := False \<rparr>)"
    if "prev_is_info_line s" "prev_info_line s = h" "match_date (strip l) = None"
      "passes4 mf (prev_date s) ?b ?b (strip l)" for s l
    using loop_body_accepted [of l s mf lcut mp wd sf] that by (simp add: n q)
  have step: "count_of (total_counts (loop_body lcut mf mp wd sf st line)) (prev_date st) =
              count_of (total_counts st) (prev_date st) + 1 \<and>
            (passes2 sf ?b ?b \<longrightarrow>
               count_of (speak_counts (loop_body lcut mf mp wd sf st line)) ?b =
                 count_of (speak_counts st) ?b + 1 \<and>
               map_of (card_names (loop_body lcut mf mp wd sf st line)) ?b = Some ?b)"
    if "prev_is_info_line st" "prev_info_line st = h" "match_date (strip line) = None"
      "passes4 mf (prev_date st) ?b ?b (strip line)"
    by (simp add: body [OF that] account_total account_speak account_card
        count_of_increment update_conv')
  have whole: "\<exists>ws tc ac sc cn.
               get_statistics fs lcut msgs_path mf mp wd sf = Inr (ws, tc, ac, sc, cn) \<and>
               tc = [(d, 1)] \<and> sc = [(?b, 1)] \<and> cn = [(?b, ?b)]"
    if r: "fs msgs_path = Some [l1, l2]" and h1: "strip l1 = h" and hd: "match_date h = Some d"
      and b2: "match_date (strip l2) = None" and p4: "passes4 mf d ?b ?b (strip l2)"
      and p2: "passes2 sf ?b ?b"
  proof -
    define s1 where "s1 = init_state\<lparr> prev_is_info_line := True, prev_info_line := h,
        prev_date := d \<rparr>"
    have s1: "prev_is_info_line s1" "prev_info_line s1 = h" "prev_date s1 = d"
      "total_counts s1 = []" "speak_counts s1 = []" "card_names s1 = []"
      by (simp_all add: s1_def init_state_def)
    have st1: "loop_body lcut mf mp wd sf init_state l1 = s1"
      using loop_body_header [of l1 d lcut mf mp wd sf init_state] hd
      by (simp add: h1 s1_def)
    have st2: "loop_body lcut mf mp wd sf s1 l2 =
        account lcut mp wd sf ?b ?b (strip l2) (s1\<lparr> prev_is_info_line := False \<rparr>)"
      using body [of s1 l2] b2 p4 by (simp add: s1)
    have run: "run_loop lcut mf mp wd sf init_state [l1, l2] = loop_body lcut mf mp wd sf s1 l2"
      by (simp add: run_loop_Cons run_loop_Nil st1)
    have "total_counts (loop_body lcut mf mp wd sf s1 l2) = [(d, 1)]"
      "speak_counts (loop_body lcut mf mp wd sf s1 l2) = [(?b, 1)]"
      "card_names (loop_body lcut mf mp wd sf s1 l2) = [(?b, ?b)]"
      using p2 by (simp_all add: st2 account_total account_speak account_card s1 increment_def)
    then show ?thesis
      using r get_statistics_readable [of fs msgs_path "[l1, l2]" lcut mf mp wd sf]
      by (simp add: run)
  qed
  from n q index_none [OF assms] step whole show ?thesis by blast
qed

theorem header_without_delimiter_witness:
  "CHR ''('' \<notin> set (name_qq_of ''2023-09-16 09:00:00 Carol'') \<and>
   CHR ''<'' \<notin> set (name_qq_of ''2023-09-16 09:00:00 Carol'') \<and>
   strip (''2023-09-16 09:00:00 Carol'' @ [CHR 0x0A]) = ''2023-09-16 09:00:00 Carol'' \<and>
   match_date ''2023-09-16 09:00:00 Carol'' = Some ''2023-09-16'' \<and>
   match_date (strip (''bye'' @ [CHR 0x0A])) = None \<and>
   name_of (name_qq_of ''2023-09-16 09:00:00 Carol'') = ''Caro'' \<and>
   qq_of (name_qq_of ''2023-09-16 09:00:00 Carol'') = ''Caro'' \<and>
   (\<exists>ws tc ac sc cn.
      get_statistics
        (\<lambda>p. Some [''2023-09-16 09:00:00 Carol'' @ [CHR 0x0A], ''bye'' @ [CHR 0x0A]])
        example_lcut ''chat.txt'' None None None None = Inr (ws, tc, ac, sc, cn) \<and>
      tc = [(''2023-09-16'', 1)] \<and> sc = [(''Caro'', 1)] \<and> cn = [(''Caro'', ''Caro'')]) \<and>
   count_of (speak_counts (loop_body example_lcut None None None None
     (init_state\<lparr> prev_is_info_line := True,
        prev_info_line := ''2023-09-16 09:00:00 Carol'', prev_date := ''2023-09-16'' \<rparr>)
     (''bye'' @ [CHR 0x0A]))) ''Caro'' = 1 \<and>
   map_of (card_names (loop_body example_lcut None None None None
     (init_state\<lparr> prev_is_info_line := True,
        prev_info_line := ''2023-09-16 09:00:00 Carol'', prev_date := ''2023-09-16'' \<rparr>)
     (''bye'' @ [CHR 0x0A]))) ''Caro'' = Some ''Caro''"
proof -
  have nq: "name_qq_of ''2023-09-16 09:00:00 Carol'' = ''Carol''"
    by (simp add: name_qq_of_def)
  have a: "CHR ''('' \<notin> set (name_qq_of ''2023-09-16 09:00:00 Carol'')"
    and b: "CHR ''<'' \<notin> set (name_qq_of ''2023-09-16 09:00:00 Carol'')"
    by (simp_all add: nq)
  have s1: "strip (''2023-09-16 09:00:00 Carol'' @ [CHR 0x0A]) = ''2023-09-16 09:00:00 Carol''"
    by (simp add: strip_def is_space_def)
  have hd: "match_date ''2023-09-16 09:00:00 Carol'' = Some ''2023-09-16''"
    by (simp add: match_date_def is_digit_def)
  have m: "match_date (strip (''bye'' @ [CHR 0x0A])) = None"
    by (simp add: strip_def is_space_def match_date_def)
  show ?thesis
    using header_without_delimiter [OF a b, of
        "\<lambda>p. Some [''2023-09-16 09:00:00 Carol'' @ [CHR 0x0A], ''bye'' @ [CHR 0x0A]]"
        "''chat.txt''" "''2023-09-16 09:00:00 Carol'' @ [CHR 0x0A]" "''bye'' @ [CHR 0x0A]"
        "''2023-09-16''" None None example_lcut None None
        "init_state\<lparr> prev_is_info_line := True,
           prev_info_line := ''2023-09-16 09:00:00 Carol'', prev_date := ''2023-09-16'' \<rparr>"
        "''bye'' @ [CHR 0x0A]"] a b s1 hd m
    by (simp add: nq passes4_def passes2_def init_state_def count_of_def)
qed

end
